theory Spec2Isabelle
  imports Complex_Main "HOL-Library.AList" "HOL-Library.Sublist"
begin

section \<open>Parallel successive halving: the pool of race instances\<close>

text \<open>
  The class \<^verbatim>\<open>ParallelSuccessiveHalving\<close> of
  \<^verbatim>\<open>smac/intensification/parallel_successive_halving.py\<close> keeps a dictionary
  \<^verbatim>\<open>intensifier_instances\<close> from integer keys to racers, ranks a racer by
  \<^verbatim>\<open>_get_intensifier_ranking\<close> and grows the dictionary by
  \<^verbatim>\<open>_add_new_instance\<close>. Both methods are embedded below with the object
  state passed explicitly. Python integers are \<open>int\<close>; a dictionary is an association
  list in insertion order, \<^verbatim>\<open>d[k] = v\<close> is \<open>AList.update k v d\<close> (an existing
  key keeps its place, a new key goes to the end) and \<^verbatim>\<open>len(d)\<close> is the length
  of the list.
\<close>

subsection \<open>Data\<close>

text \<open>
  The collaborators \<^verbatim>\<open>Stats\<close>, \<^verbatim>\<open>TrajLogger\<close> and
  \<^verbatim>\<open>RandomState\<close> are shared objects that the scheduler only hands on: they are
  references. The float arguments are only handed on as well, never computed with.
\<close>

type_synonym ref = nat

text \<open>
  The arguments of \<^verbatim>\<open>ParallelSuccessiveHalving.__init__\<close>, under the names of
  the keywords by which \<^verbatim>\<open>_add_new_instance\<close> hands them to
  \<^verbatim>\<open>SuccessiveHalving\<close> (the scheduler keeps \<open>rng\<close> as \<^verbatim>\<open>self.rs\<close>,
  \<open>instances\<close> as \<^verbatim>\<open>self._instances\<close> and \<open>instance_specifics\<close> as
  \<^verbatim>\<open>self._instance_specifics\<close>).
\<close>

record racer_args =
  stats :: ref
  traj_logger :: ref
  rng :: ref
  instances :: "string list"
  instance_specifics :: "(string \<times> string) list option"
  cutoff :: "real option"
  deterministic :: bool
  initial_budget :: "real option"
  max_budget :: "real option"
  eta :: real
  num_initial_challengers :: "int option"
  run_obj_time :: bool
  n_seeds :: "int option"
  instance_order :: "string option"
  adaptive_capping_slackfactor :: real
  inst_seed_pairs :: "(string \<times> int) list option"
  min_chall :: int
  incumbent_selection :: string

text \<open>
  What the scheduler reads of a \<^verbatim>\<open>SuccessiveHalving\<close> object: the attribute
  \<^verbatim>\<open>stage\<close>, which a newly created object does not have (\<open>None\<close>, the case
  \<^verbatim>\<open>hasattr(intensifier, 'stage')\<close> being false), and the container
  \<^verbatim>\<open>run_tracker\<close>, of which only \<^verbatim>\<open>len\<close> is taken; the type \<open>'r\<close>
  of its entries is left open. \<open>args\<close> and \<open>identifier\<close> are what the constructor
  was called with.
\<close>

record 'r successive_halving =
  args :: racer_args
  "identifier" :: int
  stage :: "int option"
  run_tracker :: "'r list"

text \<open>
  An \<^verbatim>\<open>AbstractRacer\<close> is a \<^verbatim>\<open>SuccessiveHalving\<close> (the case
  \<^verbatim>\<open>isinstance(intensifier, SuccessiveHalving)\<close>) or an object of another racer
  class, of which only the class name is kept.
\<close>

datatype 'r racer =
  is_SuccessiveHalving: SuccessiveHalving "'r successive_halving"
  | OtherRacer string

text \<open>
  The exceptions: the failed assertion of \<^verbatim>\<open>_get_intensifier_ranking\<close>, and the
  exception with which the constructor of \<^verbatim>\<open>SuccessiveHalving\<close> refuses its
  arguments (the docstring of the class does not name its class).
\<close>

datatype error = AssertionError | ConstructionError

record 'r scheduler =
  settings :: racer_args
  intensifier_instances :: "(int \<times> 'r racer) list"

subsection \<open>Construction\<close>

text \<open>
  Modelled from the spec: the constructor of \<^verbatim>\<open>SuccessiveHalving\<close> is not among
  the sources. \<open>SuccessiveHalving_init\<close> is the object it leaves when it returns: a
  brand-new instance has not yet issued a job, so it keeps the arguments and the
  identifier it was given, its run tracker is empty and, as the comment in
  \<^verbatim>\<open>_get_intensifier_ranking\<close> says, it has no stage.
\<close>

definition SuccessiveHalving_init :: "racer_args \<Rightarrow> int \<Rightarrow> 'r successive_halving" where
  "SuccessiveHalving_init a i =
     \<lparr>args = a, identifier = i, stage = None, run_tracker = []\<rparr>"

text \<open>
  The call \<^verbatim>\<open>SuccessiveHalving(...)\<close> can raise. Its code is not among the
  sources, so what it refuses is taken from the source's docstring and, beyond that, as a
  parameter: the docstring of \<^verbatim>\<open>ParallelSuccessiveHalving\<close> says of
  \<^verbatim>\<open>min_chall\<close> that an exception is raised if a value larger than 1 is passed,
  and \<^verbatim>\<open>ParallelSuccessiveHalving.__init__\<close> has no such check, so it is this
  call that raises. Whether the constructor refuses the arguments for another reason is
  the parameter \<open>rejects\<close>. A call that does not raise returns the brand-new instance.
\<close>

definition construct_SuccessiveHalving ::
  "(racer_args \<Rightarrow> bool) \<Rightarrow> racer_args \<Rightarrow> int \<Rightarrow> error + 'r successive_halving" where
  "construct_SuccessiveHalving rejects a i =
     (if min_chall a > 1 \<or> rejects a then Inl ConstructionError
      else Inr (SuccessiveHalving_init a i))"

text \<open>
  \<^verbatim>\<open>ParallelSuccessiveHalving.__init__\<close> stores its arguments. Modelled from the
  spec: the constructor of the parent class \<^verbatim>\<open>ParallelScheduler\<close> is not among
  the sources; the pool starts empty (the scenario of section 8).
\<close>

definition ParallelSuccessiveHalving_init :: "racer_args \<Rightarrow> 'r scheduler" where
  "ParallelSuccessiveHalving_init a = \<lparr>settings = a, intensifier_instances = []\<rparr>"

subsection \<open>The two methods\<close>

text \<open>
  \<^verbatim>\<open>_get_intensifier_ranking(self, intensifier)\<close>: the assertion, then the stage
  (0 without the attribute) and the length of the run tracker. The method assigns
  nothing; the result comes with the scheduler and the racer as the call leaves them.
\<close>

definition get_intensifier_ranking ::
  "'r scheduler \<Rightarrow> 'r racer \<Rightarrow> (error + int \<times> int) \<times> 'r scheduler \<times> 'r racer" where
  "get_intensifier_ranking self intensifier =
     (case intensifier of
        OtherRacer c \<Rightarrow> (Inl AssertionError, self, intensifier)
      | SuccessiveHalving sh \<Rightarrow>
          (Inr (case stage sh of None \<Rightarrow> 0 | Some st \<Rightarrow> st, int (length (run_tracker sh))),
           self, intensifier))"

text \<open>
  \<^verbatim>\<open>_add_new_instance(self, num_workers)\<close>: the early return; else the
  constructor is called with the scheduler's settings and
  \<^verbatim>\<open>identifier=len(self.intensifier_instances)\<close>. An exception of the constructor
  leaves the method before the assignment, with the scheduler as it was; otherwise the
  new object is stored under the key \<^verbatim>\<open>len(self.intensifier_instances)\<close> and
  the method returns true. The result is the exception or the returned value, with the
  scheduler as the call leaves it.
\<close>

definition add_new_instance ::
  "(racer_args \<Rightarrow> bool) \<Rightarrow> 'r scheduler \<Rightarrow> int \<Rightarrow> (error + bool) \<times> 'r scheduler" where
  "add_new_instance rejects self num_workers =
     (if int (length (intensifier_instances self)) \<ge> num_workers then (Inr False, self)
      else
        (case construct_SuccessiveHalving rejects (settings self)
                (int (length (intensifier_instances self))) of
           Inl e \<Rightarrow> (Inl e, self)
         | Inr sh \<Rightarrow>
             (Inr True,
              self\<lparr>intensifier_instances :=
                AList.update (int (length (intensifier_instances self)))
                  (SuccessiveHalving sh) (intensifier_instances self)\<rparr>)))"

text \<open>
  A sequence of calls, one per number of workers given; the caller goes on after a
  result and after an exception alike.
\<close>

fun add_new_instances ::
  "(racer_args \<Rightarrow> bool) \<Rightarrow> 'r scheduler \<Rightarrow> int list \<Rightarrow> 'r scheduler" where
  "add_new_instances rejects self [] = self"
| "add_new_instances rejects self (n # ns) =
     add_new_instances rejects (snd (add_new_instance rejects self n)) ns"

text \<open>
  The keys of a pool are dense and in creation order when the \<open>i\<close>-th entry has the
  key \<open>i\<close>.
\<close>

definition pool_dense :: "(int \<times> 'a) list \<Rightarrow> bool" where
  "pool_dense pool \<longleftrightarrow> map fst pool = map int [0..<length pool]"

subsection \<open>The selection among ranked instances\<close>

text \<open>
  Modelled from the spec: the dispatch loop of \<^verbatim>\<open>ParallelScheduler\<close>, which
  compares the rankings and selects an instance, is not among the sources. Section 4.2:
  ranks are pairs of integers compared lexicographically, descending (higher ranks are
  selected first), and remaining ties are broken by ascending identifier. A ranked
  instance is its identifier in the pool with its rank.
\<close>

type_synonym ranked = "int \<times> (int \<times> int)"

fun rank_less :: "int \<times> int \<Rightarrow> int \<times> int \<Rightarrow> bool" where
  "rank_less (p, s) (p', s') \<longleftrightarrow> p < p' \<or> (p = p' \<and> s < s')"

definition selected_before :: "ranked \<Rightarrow> ranked \<Rightarrow> bool" where
  "selected_before a b \<longleftrightarrow>
     rank_less (snd b) (snd a) \<or> (snd a = snd b \<and> fst a < fst b)"

fun place :: "ranked \<Rightarrow> ranked list \<Rightarrow> ranked list" where
  "place x [] = [x]"
| "place x (y # ys) = (if selected_before x y then x # y # ys else y # place x ys)"

text \<open>
  Every candidate is ranked by \<open>get_intensifier_ranking\<close>; a failed assertion ends the
  ranking.
\<close>

fun rank_instances :: "'r scheduler \<Rightarrow> (int \<times> 'r racer) list \<Rightarrow> error + ranked list" where
  "rank_instances self [] = Inr []"
| "rank_instances self ((i, r) # rest) =
     (case fst (get_intensifier_ranking self r) of
        Inl e \<Rightarrow> Inl e
      | Inr rk \<Rightarrow>
          (case rank_instances self rest of
             Inl e \<Rightarrow> Inl e
           | Inr rs \<Rightarrow> Inr ((i, rk) # rs)))"

definition selection_order :: "'r scheduler \<Rightarrow> (int \<times> 'r racer) list \<Rightarrow> error + ranked list" where
  "selection_order self cands =
     (case rank_instances self cands of
        Inl e \<Rightarrow> Inl e
      | Inr rs \<Rightarrow> Inr (foldr place rs []))"

subsection \<open>Examples\<close>

text \<open>A scheduler for the examples.\<close>

definition example_args :: racer_args where
  "example_args =
     \<lparr>stats = 0, traj_logger = 1, rng = 2, instances = [''i1'', ''i2''],
      instance_specifics = None, cutoff = None, deterministic = False,
      initial_budget = None, max_budget = None, eta = 3,
      num_initial_challengers = None, run_obj_time = True, n_seeds = None,
      instance_order = Some ''shuffle_once'', adaptive_capping_slackfactor = 12 / 10,
      inst_seed_pairs = None, min_chall = 1,
      incumbent_selection = ''highest_executed_budget''\<rparr>"

definition example_scheduler :: "unit scheduler" where
  "example_scheduler = ParallelSuccessiveHalving_init example_args"

text \<open>The same scheduler constructed with \<^verbatim>\<open>min_chall=2\<close>.\<close>

definition example_scheduler_min_chall_2 :: "unit scheduler" where
  "example_scheduler_min_chall_2 =
     ParallelSuccessiveHalving_init (example_args\<lparr>min_chall := 2\<rparr>)"

text \<open>A constructor that refuses nothing but \<^verbatim>\<open>min_chall > 1\<close>.\<close>

definition no_other_check :: "racer_args \<Rightarrow> bool" where
  "no_other_check a = False"

text \<open>A successive halver at a given stage with a given number of tracked runs.\<close>

definition example_sh :: "int \<Rightarrow> int \<Rightarrow> nat \<Rightarrow> unit successive_halving" where
  "example_sh i st n =
     \<lparr>args = example_args, identifier = i, stage = Some st, run_tracker = replicate n ()\<rparr>"

section \<open>Properties\<close>

subsection \<open>Growing the pool\<close>

lemma pool_dense_key_fresh:
  assumes "pool_dense pool"
  shows "int (length pool) \<notin> set (map fst pool)"
proof -
  from assms have "set (map fst pool) = int ` {0..<length pool}"
    by (simp add: pool_dense_def)
  then show ?thesis by auto
qed

lemma update_fresh_append:
  "k \<notin> set (map fst al) \<Longrightarrow> AList.update k v al = al @ [(k, v)]"
  by (induction al) auto

lemma pool_dense_snoc:
  assumes "pool_dense pool"
  shows "pool_dense (pool @ [(int (length pool), v)])"
  using assms by (simp add: pool_dense_def)

lemma length_update_ge: "length al \<le> length (AList.update k v al)"
  by (induction al) auto

lemma length_update_le: "length (AList.update k v al) \<le> Suc (length al)"
  by (induction al) auto

lemma construct_SuccessiveHalving_Inr:
  "construct_SuccessiveHalving rejects a i = Inr sh \<longleftrightarrow>
     min_chall a \<le> 1 \<and> \<not> rejects a \<and> sh = SuccessiveHalving_init a i"
  by (auto simp: construct_SuccessiveHalving_def)

lemma construct_SuccessiveHalving_Inl:
  "construct_SuccessiveHalving rejects a i = Inl e \<longleftrightarrow>
     (1 < min_chall a \<or> rejects a) \<and> e = ConstructionError"
  by (auto simp: construct_SuccessiveHalving_def)

lemma add_new_instance_False:
  "fst (add_new_instance rejects self n) = Inr False \<longleftrightarrow>
     n \<le> int (length (intensifier_instances self))"
  by (simp add: add_new_instance_def split: sum.splits)

lemma add_new_instance_True:
  "fst (add_new_instance rejects self n) = Inr True \<longleftrightarrow>
     int (length (intensifier_instances self)) < n
     \<and> min_chall (settings self) \<le> 1 \<and> \<not> rejects (settings self)"
  by (auto simp: add_new_instance_def construct_SuccessiveHalving_Inr
      construct_SuccessiveHalving_Inl split: sum.splits)

lemma add_new_instance_raises:
  "fst (add_new_instance rejects self n) = Inl e \<longleftrightarrow>
     int (length (intensifier_instances self)) < n
     \<and> (1 < min_chall (settings self) \<or> rejects (settings self)) \<and> e = ConstructionError"
  by (auto simp: add_new_instance_def construct_SuccessiveHalving_Inr
      construct_SuccessiveHalving_Inl split: sum.splits)

lemma add_new_instance_unchanged:
  "fst (add_new_instance rejects self n) \<noteq> Inr True \<Longrightarrow>
     snd (add_new_instance rejects self n) = self"
  by (simp add: add_new_instance_def split: if_splits sum.splits)

lemma add_new_instance_pool:
  "intensifier_instances (snd (add_new_instance rejects self n)) =
     (if fst (add_new_instance rejects self n) = Inr True
      then AList.update (int (length (intensifier_instances self)))
             (SuccessiveHalving (SuccessiveHalving_init (settings self)
               (int (length (intensifier_instances self)))))
             (intensifier_instances self)
      else intensifier_instances self)"
  by (auto simp: add_new_instance_def construct_SuccessiveHalving_Inr split: sum.splits)

lemma add_new_instance_True_dense:
  assumes "pool_dense (intensifier_instances self)"
    and "fst (add_new_instance rejects self n) = Inr True"
  shows "intensifier_instances (snd (add_new_instance rejects self n)) =
           intensifier_instances self @
             [(int (length (intensifier_instances self)),
               SuccessiveHalving (SuccessiveHalving_init (settings self)
                 (int (length (intensifier_instances self)))))]"
  using assms(2) pool_dense_key_fresh [OF assms(1)]
  by (simp add: add_new_instance_pool update_fresh_append)

lemma add_new_instance_settings:
  "settings (snd (add_new_instance rejects self n)) = settings self"
  by (simp add: add_new_instance_def split: sum.splits)

text \<open>
  C1, as amended. \<^verbatim>\<open>_add_new_instance(num_workers)\<close> returns false if and only if
  the pool size is at least \<open>num_workers\<close>. With the pool size strictly less than
  \<open>num_workers\<close> it returns true if and only if the constructor of
  \<^verbatim>\<open>SuccessiveHalving\<close> accepts the scheduler's settings (\<^verbatim>\<open>min_chall\<close> at
  most 1 and nothing else refused), and the constructor's exception leaves the method
  otherwise. Whenever the method does not return true the scheduler is unchanged. When
  it returns true on a pool whose keys are dense (every pool that the method itself has
  built from the empty one), exactly one entry has been added: the pool is the old pool
  followed by one new \<^verbatim>\<open>SuccessiveHalving\<close> instance, its size has grown by one
  and the settings are untouched.
\<close>

theorem add_new_instance_policy:
  "(fst (add_new_instance rejects self n) = Inr False \<longleftrightarrow>
      n \<le> int (length (intensifier_instances self)))
   \<and> (fst (add_new_instance rejects self n) = Inr True \<longleftrightarrow>
      int (length (intensifier_instances self)) < n
      \<and> min_chall (settings self) \<le> 1 \<and> \<not> rejects (settings self))
   \<and> (fst (add_new_instance rejects self n) = Inl ConstructionError \<longleftrightarrow>
      int (length (intensifier_instances self)) < n
      \<and> (1 < min_chall (settings self) \<or> rejects (settings self)))
   \<and> (fst (add_new_instance rejects self n) \<noteq> Inr True \<longrightarrow>
        snd (add_new_instance rejects self n) = self)
   \<and> (fst (add_new_instance rejects self n) = Inr True
        \<and> pool_dense (intensifier_instances self) \<longrightarrow>
        intensifier_instances (snd (add_new_instance rejects self n)) =
          intensifier_instances self @
            [(int (length (intensifier_instances self)),
              SuccessiveHalving (SuccessiveHalving_init (settings self)
                (int (length (intensifier_instances self)))))]
        \<and> length (intensifier_instances (snd (add_new_instance rejects self n))) =
            Suc (length (intensifier_instances self))
        \<and> settings (snd (add_new_instance rejects self n)) = settings self)"
proof -
  have "fst (add_new_instance rejects self n) = Inr True \<Longrightarrow>
      pool_dense (intensifier_instances self) \<Longrightarrow>
      length (intensifier_instances (snd (add_new_instance rejects self n))) =
        Suc (length (intensifier_instances self))"
    by (simp add: add_new_instance_True_dense)
  then show ?thesis
    using add_new_instance_False [of rejects self n] add_new_instance_True [of rejects self n]
      add_new_instance_raises [of rejects self n ConstructionError]
      add_new_instance_unchanged [of rejects self n]
      add_new_instance_True_dense [of self rejects n]
      add_new_instance_settings [of rejects self n]
    by blast
qed

theorem add_new_instance_policy_witness:
  "fst (add_new_instance no_other_check example_scheduler 2) = Inr True
   \<and> pool_dense (intensifier_instances example_scheduler)
   \<and> intensifier_instances (snd (add_new_instance no_other_check example_scheduler 2)) =
       [(0, SuccessiveHalving (SuccessiveHalving_init example_args 0))]
   \<and> fst (add_new_instance no_other_check
        (snd (add_new_instance no_other_check example_scheduler 1)) 1) = Inr False
   \<and> snd (add_new_instance no_other_check
        (snd (add_new_instance no_other_check example_scheduler 1)) 1) =
       snd (add_new_instance no_other_check example_scheduler 1)
   \<and> fst (add_new_instance no_other_check example_scheduler_min_chall_2 1) =
       Inl ConstructionError
   \<and> snd (add_new_instance no_other_check example_scheduler_min_chall_2 1) =
       example_scheduler_min_chall_2"
  using add_new_instance_policy [of no_other_check example_scheduler 2]
    add_new_instance_policy [of no_other_check
      "snd (add_new_instance no_other_check example_scheduler 1)" 1]
    add_new_instance_policy [of no_other_check example_scheduler_min_chall_2 1]
  by (simp add: example_scheduler_def example_scheduler_min_chall_2_def example_args_def
      no_other_check_def ParallelSuccessiveHalving_init_def pool_dense_def
      add_new_instance_def construct_SuccessiveHalving_def)

text \<open>
  With \<^verbatim>\<open>min_chall=2\<close> the pool is empty, one worker is available, and the call
  raises instead of returning true.
\<close>

theorem add_new_instance_raises_counterexample:
  "int (length (intensifier_instances example_scheduler_min_chall_2)) < 1
   \<and> fst (add_new_instance no_other_check example_scheduler_min_chall_2 1) =
       Inl ConstructionError
   \<and> fst (add_new_instance no_other_check example_scheduler_min_chall_2 1) \<noteq> Inr True"
  by (simp add: example_scheduler_min_chall_2_def example_args_def no_other_check_def
      ParallelSuccessiveHalving_init_def add_new_instance_def construct_SuccessiveHalving_def)

text \<open>
  C2. Whenever \<^verbatim>\<open>_add_new_instance\<close> adds an instance, the pool maps the key
  equal to the pool size at the moment of creation to the new instance, and the new
  instance has that same number as its identifier.
\<close>

theorem new_instance_identifier_is_key:
  assumes "fst (add_new_instance rejects self n) = Inr True"
  shows "map_of (intensifier_instances (snd (add_new_instance rejects self n)))
           (int (length (intensifier_instances self))) =
         Some (SuccessiveHalving
           (SuccessiveHalving_init (settings self) (int (length (intensifier_instances self)))))
       \<and> identifier (SuccessiveHalving_init (settings self)
           (int (length (intensifier_instances self))) :: 'r successive_halving) =
         int (length (intensifier_instances self))"
  using assms
  by (simp add: add_new_instance_pool AList.update_conv' SuccessiveHalving_init_def)

theorem new_instance_identifier_is_key_witness:
  "fst (add_new_instance no_other_check
      (snd (add_new_instance no_other_check example_scheduler 2)) 2) = Inr True
   \<and> map_of (intensifier_instances
        (snd (add_new_instance no_other_check
          (snd (add_new_instance no_other_check example_scheduler 2)) 2))) 1 =
      Some (SuccessiveHalving (SuccessiveHalving_init example_args 1))
   \<and> identifier (SuccessiveHalving_init example_args 1 :: unit successive_halving) = 1"
  using new_instance_identifier_is_key [of no_other_check
      "snd (add_new_instance no_other_check example_scheduler 2)" 2]
  by (simp add: example_scheduler_def example_args_def no_other_check_def
      ParallelSuccessiveHalving_init_def add_new_instance_def construct_SuccessiveHalving_def)

subsection \<open>Sequences of calls\<close>

lemma add_new_instance_length_mono:
  "length (intensifier_instances self) \<le>
     length (intensifier_instances (snd (add_new_instance rejects self n)))"
  by (simp add: add_new_instance_pool length_update_ge)

lemma add_new_instance_length_bound:
  assumes "int (length (intensifier_instances self)) \<le> n"
  shows "int (length (intensifier_instances (snd (add_new_instance rejects self n)))) \<le> n"
proof (cases "fst (add_new_instance rejects self n) = Inr True")
  case False
  then show ?thesis using assms by (simp add: add_new_instance_pool)
next
  case True
  let ?k = "int (length (intensifier_instances self))"
  let ?v = "SuccessiveHalving (SuccessiveHalving_init (settings self) ?k)"
  from True have "?k < n" by (simp add: add_new_instance_True)
  moreover have "length (AList.update ?k ?v (intensifier_instances self))
          \<le> Suc (length (intensifier_instances self))"
    by (rule length_update_le)
  ultimately show ?thesis using True by (simp add: add_new_instance_pool)
qed

lemma add_new_instances_append:
  "add_new_instances rejects self (ns @ ms) =
     add_new_instances rejects (add_new_instances rejects self ns) ms"
  by (induction ns arbitrary: self) simp_all

lemma add_new_instances_length_mono:
  "length (intensifier_instances self) \<le>
     length (intensifier_instances (add_new_instances rejects self ns))"
proof (induction ns arbitrary: self)
  case Nil
  show ?case by simp
next
  case (Cons n ns)
  have "length (intensifier_instances self) \<le>
          length (intensifier_instances (snd (add_new_instance rejects self n)))"
    by (rule add_new_instance_length_mono)
  also have "\<dots> \<le> length (intensifier_instances
      (add_new_instances rejects (snd (add_new_instance rejects self n)) ns))"
    by (rule Cons.IH)
  finally show ?case by simp
qed

lemma add_new_instances_length_bound:
  "int (length (intensifier_instances self)) \<le> n \<Longrightarrow>
     int (length (intensifier_instances (add_new_instances rejects self (replicate k n)))) \<le> n"
  by (induction k arbitrary: self) (simp_all add: add_new_instance_length_bound)

text \<open>
  C3. For a fixed \<open>num_workers\<close> that the pool does not exceed at the start (from the
  empty pool: any \<open>num_workers\<close> that is not negative), after any number \<open>k\<close> of calls
  to \<^verbatim>\<open>_add_new_instance(num_workers)\<close> the pool size does not exceed
  \<open>num_workers\<close>, and the pool size after \<open>j \<le> k\<close> calls is at most the size after \<open>k\<close>
  calls: no call removes an instance.
\<close>

theorem pool_growth_bound:
  assumes "int (length (intensifier_instances self)) \<le> n" and "j \<le> k"
  shows "int (length (intensifier_instances
            (add_new_instances rejects self (replicate k n)))) \<le> n
       \<and> length (intensifier_instances (add_new_instances rejects self (replicate j n)))
           \<le> length (intensifier_instances (add_new_instances rejects self (replicate k n)))"
proof -
  from assms(2) have "replicate k n = replicate j n @ replicate (k - j) n"
    by (simp add: replicate_add [symmetric])
  then have "add_new_instances rejects self (replicate k n) =
      add_new_instances rejects (add_new_instances rejects self (replicate j n))
        (replicate (k - j) n)"
    by (simp add: add_new_instances_append)
  then show ?thesis
    using add_new_instances_length_bound [OF assms(1)] add_new_instances_length_mono
    by metis
qed

theorem pool_growth_bound_witness:
  "int (length (intensifier_instances example_scheduler)) \<le> 3 \<and> (2::nat) \<le> 5
   \<and> int (length (intensifier_instances
        (add_new_instances no_other_check example_scheduler (replicate 5 3)))) \<le> 3
   \<and> length (intensifier_instances
        (add_new_instances no_other_check example_scheduler (replicate 2 3)))
       \<le> length (intensifier_instances
        (add_new_instances no_other_check example_scheduler (replicate 5 3)))
   \<and> length (intensifier_instances
        (add_new_instances no_other_check example_scheduler (replicate 2 3))) = 2
   \<and> length (intensifier_instances
        (add_new_instances no_other_check example_scheduler (replicate 5 3))) = 3"
  using pool_growth_bound [of example_scheduler 3 2 5 no_other_check]
  by (simp add: example_scheduler_def example_args_def no_other_check_def
      ParallelSuccessiveHalving_init_def add_new_instance_def construct_SuccessiveHalving_def
      numeral_eq_Suc)

lemma add_new_instance_dense:
  assumes "pool_dense (intensifier_instances self)"
  shows "pool_dense (intensifier_instances (snd (add_new_instance rejects self n)))
       \<and> prefix (intensifier_instances self)
           (intensifier_instances (snd (add_new_instance rejects self n)))"
  using assms pool_dense_key_fresh [OF assms] pool_dense_snoc [OF assms]
  by (simp add: add_new_instance_pool update_fresh_append)

lemma pool_dense_init:
  "pool_dense (intensifier_instances (ParallelSuccessiveHalving_init a))"
  by (simp add: ParallelSuccessiveHalving_init_def pool_dense_def)

text \<open>
  C4. From a pool whose keys are dense (the empty pool of a new scheduler is), after
  every sequence of calls to \<^verbatim>\<open>_add_new_instance\<close>, with any numbers of workers,
  the keys of the pool are again \<open>0, 1, \<dots>, pool_size - 1\<close> in the order of creation,
  and the pool before the calls is a prefix of the pool after them: no entry was
  overwritten, removed or moved.
\<close>

theorem pool_keys_dense_and_stable:
  assumes "pool_dense (intensifier_instances self)"
  shows "pool_dense (intensifier_instances (add_new_instances rejects self ns))
       \<and> prefix (intensifier_instances self)
           (intensifier_instances (add_new_instances rejects self ns))"
  using assms
proof (induction ns arbitrary: self)
  case Nil
  then show ?case by simp
next
  case (Cons n ns)
  let ?s = "snd (add_new_instance rejects self n)"
  from Cons.prems have step: "pool_dense (intensifier_instances ?s)"
    and keep: "prefix (intensifier_instances self) (intensifier_instances ?s)"
    using add_new_instance_dense by blast+
  from Cons.IH [OF step] keep show ?case
    by (auto intro: prefix_order.trans)
qed

theorem pool_keys_dense_and_stable_witness:
  "pool_dense (intensifier_instances example_scheduler)
   \<and> pool_dense (intensifier_instances
        (add_new_instances no_other_check example_scheduler [1, 3, 2, 3]))
   \<and> prefix (intensifier_instances example_scheduler)
        (intensifier_instances
          (add_new_instances no_other_check example_scheduler [1, 3, 2, 3]))
   \<and> map fst (intensifier_instances
        (add_new_instances no_other_check example_scheduler [1, 3, 2, 3])) = [0, 1, 2]"
  using pool_keys_dense_and_stable [of example_scheduler no_other_check "[1, 3, 2, 3]"]
  by (simp add: example_scheduler_def example_args_def no_other_check_def
      ParallelSuccessiveHalving_init_def add_new_instance_def construct_SuccessiveHalving_def
      pool_dense_def)

subsection \<open>Ranking an intensifier\<close>

lemma ranking_SuccessiveHalving:
  "fst (get_intensifier_ranking self (SuccessiveHalving sh)) =
     Inr (case stage sh of None \<Rightarrow> 0 | Some st \<Rightarrow> st, int (length (run_tracker sh)))"
  by (simp add: get_intensifier_ranking_def)

lemma ranking_OtherRacer:
  "fst (get_intensifier_ranking self (OtherRacer c)) = Inl AssertionError"
  by (simp add: get_intensifier_ranking_def)

text \<open>
  C5. For a \<^verbatim>\<open>SuccessiveHalving\<close> instance the primary key returned by
  \<^verbatim>\<open>_get_intensifier_ranking\<close> is the instance's \<^verbatim>\<open>stage\<close> attribute
  when it has one and 0 when it has none; a brand-new instance has none, so its primary
  key is 0.
\<close>

theorem ranking_primary_key_is_stage:
  "(stage sh = Some st \<longrightarrow>
      (\<exists>k. fst (get_intensifier_ranking self (SuccessiveHalving sh)) = Inr (st, k)))
   \<and> (stage sh = None \<longrightarrow>
      (\<exists>k. fst (get_intensifier_ranking self (SuccessiveHalving sh)) = Inr (0, k)))
   \<and> (\<exists>k. fst (get_intensifier_ranking self
          (SuccessiveHalving (SuccessiveHalving_init a i))) = Inr (0, k))"
  by (simp add: ranking_SuccessiveHalving SuccessiveHalving_init_def)

theorem ranking_primary_key_is_stage_witness:
  "stage (example_sh 0 2 5) = Some 2
   \<and> (\<exists>k. fst (get_intensifier_ranking example_scheduler
          (SuccessiveHalving (example_sh 0 2 5))) = Inr (2, k))
   \<and> stage (SuccessiveHalving_init example_args 0 :: unit successive_halving) = None
   \<and> (\<exists>k. fst (get_intensifier_ranking example_scheduler
          (SuccessiveHalving (SuccessiveHalving_init example_args 0))) = Inr (0, k))"
  using ranking_primary_key_is_stage [of "example_sh 0 2 5" 2 example_scheduler example_args 0]
    ranking_primary_key_is_stage [of "SuccessiveHalving_init example_args 0" 0
      example_scheduler example_args 0]
  by (simp add: example_sh_def SuccessiveHalving_init_def)

text \<open>
  C9. \<^verbatim>\<open>_get_intensifier_ranking\<close> fails its assertion for every racer that is
  not a \<^verbatim>\<open>SuccessiveHalving\<close>, and for every \<^verbatim>\<open>SuccessiveHalving\<close>
  it returns a pair of integers.
\<close>

theorem ranking_requires_successive_halving:
  "(\<not> is_SuccessiveHalving intensifier \<longrightarrow>
      fst (get_intensifier_ranking self intensifier) = Inl AssertionError)
   \<and> (is_SuccessiveHalving intensifier \<longrightarrow>
      (\<exists>p k. fst (get_intensifier_ranking self intensifier) = Inr (p, k)))"
  by (cases intensifier) (simp_all add: ranking_SuccessiveHalving ranking_OtherRacer)

theorem ranking_requires_successive_halving_witness:
  "\<not> is_SuccessiveHalving (OtherRacer ''Intensifier'' :: unit racer)
   \<and> fst (get_intensifier_ranking example_scheduler (OtherRacer ''Intensifier'')) =
       Inl AssertionError
   \<and> is_SuccessiveHalving (SuccessiveHalving (example_sh 1 3 1))
   \<and> fst (get_intensifier_ranking example_scheduler (SuccessiveHalving (example_sh 1 3 1))) =
       Inr (3, 1)"
  using ranking_requires_successive_halving [of "OtherRacer ''Intensifier''" example_scheduler]
    ranking_requires_successive_halving [of "SuccessiveHalving (example_sh 1 3 1)"
      example_scheduler]
  by (simp add: get_intensifier_ranking_def example_sh_def)

text \<open>
  C10. \<^verbatim>\<open>_get_intensifier_ranking\<close> leaves the scheduler (its pool with it) and
  the intensifier (stage and run tracker with it) as they were, and a second call on what
  the first call left returns the same result.
\<close>

theorem ranking_is_pure_observation:
  "snd (get_intensifier_ranking self intensifier) = (self, intensifier)
   \<and> fst (get_intensifier_ranking
        (fst (snd (get_intensifier_ranking self intensifier)))
        (snd (snd (get_intensifier_ranking self intensifier)))) =
      fst (get_intensifier_ranking self intensifier)"
proof -
  have frame: "snd (get_intensifier_ranking self intensifier) = (self, intensifier)"
    by (cases intensifier) (simp_all add: get_intensifier_ranking_def)
  then show ?thesis by simp
qed

subsection \<open>The selection order\<close>

lemma selected_before_irrefl: "\<not> selected_before a a"
  by (cases a) (auto simp: selected_before_def)

lemma selected_before_asym: "selected_before a b \<Longrightarrow> \<not> selected_before b a"
  by (cases a; cases b) (auto simp: selected_before_def)

lemma not_selected_before_trans:
  "\<not> selected_before b a \<Longrightarrow> \<not> selected_before c b \<Longrightarrow> \<not> selected_before c a"
  by (cases a; cases b; cases c) (auto simp: selected_before_def)

lemma set_place: "set (place x ys) = insert x (set ys)"
  by (induction ys) auto

lemma sorted_place:
  "sorted_wrt (\<lambda>a b. \<not> selected_before b a) ys \<Longrightarrow>
     sorted_wrt (\<lambda>a b. \<not> selected_before b a) (place x ys)"
proof (induction ys)
  case Nil
  show ?case by simp
next
  case (Cons y ys)
  show ?case
  proof (cases "selected_before x y")
    case True
    then have "\<not> selected_before y x" by (rule selected_before_asym)
    moreover have "\<not> selected_before z x" if "z \<in> set ys" for z
    proof -
      from Cons.prems that have "\<not> selected_before z y" by simp
      with \<open>\<not> selected_before y x\<close> show ?thesis
        by (rule not_selected_before_trans)
    qed
    ultimately show ?thesis using True Cons.prems by simp
  next
    case False
    with Cons show ?thesis by (auto simp: set_place)
  qed
qed

lemma sorted_foldr_place: "sorted_wrt (\<lambda>a b. \<not> selected_before b a) (foldr place rs [])"
  by (induction rs) (simp_all add: sorted_place)

lemma set_foldr_place: "set (foldr place rs []) = set rs"
  by (induction rs) (simp_all add: set_place)

lemma length_place: "length (place x ys) = Suc (length ys)"
  by (induction ys) auto

lemma length_foldr_place: "length (foldr place rs []) = length rs"
  by (induction rs) (simp_all add: length_place)

lemma rank_instances_member:
  assumes "rank_instances self cands = Inr rs" and "(i, r) \<in> set cands"
    and "fst (get_intensifier_ranking self r) = Inr rk"
  shows "(i, rk) \<in> set rs"
  using assms
  by (induction self cands arbitrary: rs rule: rank_instances.induct)
    (auto split: sum.splits)

lemma selection_order_positions:
  assumes order: "selection_order self cands = Inr out"
    and a: "(i, a) \<in> set cands" "fst (get_intensifier_ranking self a) = Inr ra"
    and b: "(j, b) \<in> set cands" "fst (get_intensifier_ranking self b) = Inr rb"
    and before: "selected_before (i, ra) (j, rb)"
  shows "\<exists>m n. m < n \<and> n < length out \<and> out ! m = (i, ra) \<and> out ! n = (j, rb)"
proof -
  from order obtain rs where rs: "rank_instances self cands = Inr rs"
    and out: "out = foldr place rs []"
    by (auto simp: selection_order_def split: sum.splits)
  have "(i, ra) \<in> set out" "(j, rb) \<in> set out"
    using rank_instances_member [OF rs] a b by (simp_all add: out set_foldr_place)
  then obtain m n where m: "m < length out" "out ! m = (i, ra)"
    and n: "n < length out" "out ! n = (j, rb)"
    by (auto simp: in_set_conv_nth)
  have sorted: "sorted_wrt (\<lambda>a b. \<not> selected_before b a) out"
    by (simp add: out sorted_foldr_place)
  have "m < n"
  proof (rule ccontr)
    assume "\<not> m < n"
    then consider "n = m" | "n < m" by linarith
    then show False
    proof cases
      case 1
      with m n before show False by (simp add: selected_before_irrefl)
    next
      case 2
      from sorted_wrt_nth_less [OF sorted 2 m(1)] m n before show False by simp
    qed
  qed
  with m n show ?thesis by blast
qed

text \<open>
  C7. Ranks are compared lexicographically, descending, the stage first: of any two
  candidates that are ranked, the one whose rank is lexicographically greater stands
  earlier in the selection order. With ranks \<open>(2, 5)\<close> and \<open>(2, 7)\<close> the instance of
  rank \<open>(2, 7)\<close> is first; with ranks \<open>(3, 1)\<close> and \<open>(2, 100)\<close> the instance of rank
  \<open>(3, 1)\<close> is first.
\<close>

theorem higher_rank_selected_first:
  assumes "selection_order self cands = Inr out"
    and "(i, a) \<in> set cands" and "fst (get_intensifier_ranking self a) = Inr ra"
    and "(j, b) \<in> set cands" and "fst (get_intensifier_ranking self b) = Inr rb"
    and "rank_less rb ra"
  shows "\<exists>m n. m < n \<and> n < length out \<and> out ! m = (i, ra) \<and> out ! n = (j, rb)"
  using selection_order_positions [OF assms(1-5)] assms(6)
  by (simp add: selected_before_def)

theorem higher_rank_selected_first_witness:
  "selection_order example_scheduler
       [(0, SuccessiveHalving (example_sh 0 2 5)), (1, SuccessiveHalving (example_sh 1 2 7))] =
     Inr [(1, 2, 7), (0, 2, 5)]
   \<and> fst (get_intensifier_ranking example_scheduler (SuccessiveHalving (example_sh 1 2 7))) =
       Inr (2, 7)
   \<and> fst (get_intensifier_ranking example_scheduler (SuccessiveHalving (example_sh 0 2 5))) =
       Inr (2, 5)
   \<and> rank_less (2, 5) (2, 7)
   \<and> (\<exists>m n. m < n \<and> n < length [(1, 2, 7), (0, 2, 5) :: ranked]
        \<and> [(1, 2, 7), (0, 2, 5)] ! m = ((1, 2, 7) :: ranked)
        \<and> [(1, 2, 7), (0, 2, 5)] ! n = ((0, 2, 5) :: ranked))
   \<and> selection_order example_scheduler
       [(0, SuccessiveHalving (example_sh 0 3 1)), (1, SuccessiveHalving (example_sh 1 2 100))] =
     Inr [(0, 3, 1), (1, 2, 100)]
   \<and> rank_less (2, 100) (3, 1)
   \<and> (\<exists>m n. m < n \<and> n < length [(0, 3, 1), (1, 2, 100) :: ranked]
        \<and> [(0, 3, 1), (1, 2, 100)] ! m = ((0, 3, 1) :: ranked)
        \<and> [(0, 3, 1), (1, 2, 100)] ! n = ((1, 2, 100) :: ranked))"
proof -
  let ?a = "SuccessiveHalving (example_sh 0 2 5)" and ?b = "SuccessiveHalving (example_sh 1 2 7)"
  let ?c = "SuccessiveHalving (example_sh 0 3 1)" and ?d = "SuccessiveHalving (example_sh 1 2 100)"
  have ra: "fst (get_intensifier_ranking example_scheduler ?a) = Inr (2, 5)"
    and rb: "fst (get_intensifier_ranking example_scheduler ?b) = Inr (2, 7)"
    and rc: "fst (get_intensifier_ranking example_scheduler ?c) = Inr (3, 1)"
    and rd: "fst (get_intensifier_ranking example_scheduler ?d) = Inr (2, 100)"
    by (simp_all add: get_intensifier_ranking_def example_sh_def)
  have order1: "selection_order example_scheduler [(0, ?a), (1, ?b)] = Inr [(1, 2, 7), (0, 2, 5)]"
    by (simp add: selection_order_def get_intensifier_ranking_def example_sh_def
        selected_before_def)
  have order2: "selection_order example_scheduler [(0, ?c), (1, ?d)] = Inr [(0, 3, 1), (1, 2, 100)]"
    by (simp add: selection_order_def get_intensifier_ranking_def example_sh_def
        selected_before_def)
  have less1: "rank_less (2, 5) (2, 7)" and less2: "rank_less (2, 100) (3, 1)"
    by simp_all
  have "(1, ?b) \<in> set [(0, ?a), (1, ?b)]" and "(0, ?a) \<in> set [(0, ?a), (1, ?b)]"
    and "(0, ?c) \<in> set [(0, ?c), (1, ?d)]" and "(1, ?d) \<in> set [(0, ?c), (1, ?d)]"
    by simp_all
  then show ?thesis
    using higher_rank_selected_first [OF order1 _ rb _ ra less1, of 1 0]
      higher_rank_selected_first [OF order2 _ rc _ rd less2, of 0 1]
      order1 order2 ra rb less1 less2
    by simp
qed

text \<open>
  C8. Candidates tied on both ranking keys are selected by ascending identifier: of two
  candidates with equal ranks, the one with the smaller identifier stands earlier in the
  selection order. Two freshly created instances with identifiers 0 and 1 both have rank
  \<open>(0, 0)\<close>, and instance 0 is selected first.
\<close>

theorem ties_selected_by_identifier:
  assumes "selection_order self cands = Inr out"
    and "(i, a) \<in> set cands" and "fst (get_intensifier_ranking self a) = Inr r"
    and "(j, b) \<in> set cands" and "fst (get_intensifier_ranking self b) = Inr r"
    and "i < j"
  shows "\<exists>m n. m < n \<and> n < length out \<and> out ! m = (i, r) \<and> out ! n = (j, r)"
  using selection_order_positions [OF assms(1-5)] assms(6)
  by (simp add: selected_before_def)

theorem ties_selected_by_identifier_witness:
  "intensifier_instances (add_new_instances no_other_check example_scheduler [2, 2]) =
     [(0, SuccessiveHalving (SuccessiveHalving_init example_args 0)),
      (1, SuccessiveHalving (SuccessiveHalving_init example_args 1))]
   \<and> selection_order example_scheduler
       (intensifier_instances (add_new_instances no_other_check example_scheduler [2, 2])) =
     Inr [(0, 0, 0), (1, 0, 0)]
   \<and> fst (get_intensifier_ranking example_scheduler
        (SuccessiveHalving (SuccessiveHalving_init example_args 0))) = Inr (0, 0)
   \<and> fst (get_intensifier_ranking example_scheduler
        (SuccessiveHalving (SuccessiveHalving_init example_args 1))) = Inr (0, 0)
   \<and> (0::int) < 1
   \<and> (\<exists>m n. m < n \<and> n < length [(0, 0, 0), (1, 0, 0) :: ranked]
        \<and> [(0, 0, 0), (1, 0, 0)] ! m = ((0, 0, 0) :: ranked)
        \<and> [(0, 0, 0), (1, 0, 0)] ! n = ((1, 0, 0) :: ranked))
   \<and> selection_order example_scheduler
       (rev (intensifier_instances (add_new_instances no_other_check example_scheduler [2, 2]))) =
     Inr [(0, 0, 0), (1, 0, 0)]"
proof -
  let ?a = "SuccessiveHalving (SuccessiveHalving_init example_args 0) :: unit racer"
  let ?b = "SuccessiveHalving (SuccessiveHalving_init example_args 1) :: unit racer"
  let ?pool = "intensifier_instances (add_new_instances no_other_check example_scheduler [2, 2])"
  have pool: "?pool = [(0, ?a), (1, ?b)]"
    by (simp add: example_scheduler_def example_args_def no_other_check_def
        ParallelSuccessiveHalving_init_def add_new_instance_def construct_SuccessiveHalving_def)
  have ra: "fst (get_intensifier_ranking example_scheduler ?a) = Inr (0, 0)"
    and rb: "fst (get_intensifier_ranking example_scheduler ?b) = Inr (0, 0)"
    by (simp_all add: get_intensifier_ranking_def SuccessiveHalving_init_def)
  have order: "selection_order example_scheduler ?pool = Inr [(0, 0, 0), (1, 0, 0)]"
    unfolding pool
    by (simp add: selection_order_def get_intensifier_ranking_def SuccessiveHalving_init_def
        selected_before_def)
  have order_rev: "selection_order example_scheduler (rev ?pool) = Inr [(0, 0, 0), (1, 0, 0)]"
    unfolding pool
    by (simp add: selection_order_def get_intensifier_ranking_def SuccessiveHalving_init_def
        selected_before_def)
  have "(0, ?a) \<in> set ?pool" and "(1, ?b) \<in> set ?pool"
    unfolding pool by simp_all
  then show ?thesis
    using ties_selected_by_identifier [OF order _ ra _ rb, of 0 1]
      pool order order_rev ra rb
    by simp
qed

end
